theory Spec2Isabelle
  imports Complex_Main "HOL-Library.Word"
begin

unbundle bit_operations_syntax

section \<open>Number model\<close>

text \<open>
  The program is JavaScript. Its numbers are modelled by exact arithmetic: byte values
  and counters are natural numbers or integers, every other quantity is a real number.
  Rounding of IEEE doubles is not part of the model. A \<open>Uint8Array\<close> is a list of
  8-bit words.
\<close>

type_synonym byte = "8 word"

section \<open>Entropy engine\<close>

text \<open>
  \<open>sampleEntropy\<close> fills a \<open>Uint8Array\<close> from the platform's random source; the
  sample is the input of the model. \<open>shannonEntropy\<close> walks the keys of the frequency
  object, which JavaScript enumerates in ascending numeric order.
\<close>

definition shannonEntropy :: "byte list \<Rightarrow> real" where
  "shannonEntropy data =
    (let xs = map unat data; n = length data
     in foldl (\<lambda>H k. let p = real (count_list xs k) / real n
                      in if p > 0 then H - p * log 2 p else H)
          0 (sort (remdups xs)))"

text \<open>
  \<open>runsTest\<close>. The median is the element at index \<open>floor (length / 2)\<close> of the sorted
  copy; on an empty sample that read gives \<open>undefined\<close> (here \<open>None\<close>), and a
  comparison with \<open>undefined\<close> is false. The loop state is
  \<open>(runs, maxRun, currentRun)\<close>; the loop compares each classification with the
  previous one.
\<close>

definition median :: "nat list \<Rightarrow> nat option" where
  "median xs = (if xs = [] then None else Some (sort xs ! (length xs div 2)))"

definition geMedian :: "nat option \<Rightarrow> nat \<Rightarrow> bool" where
  "geMedian m x = (case m of None \<Rightarrow> False | Some v \<Rightarrow> x \<ge> v)"

fun runsLoop :: "bool \<Rightarrow> bool list \<Rightarrow> nat \<times> nat \<times> nat \<Rightarrow> nat \<times> nat \<times> nat" where
  "runsLoop prev [] st = st"
| "runsLoop prev (c # cs) (runs, maxRun, currentRun) =
     runsLoop c cs
       (if c = prev then (runs, max maxRun (currentRun + 1), currentRun + 1)
        else (runs + 1, maxRun, 1))"

record runsResult =
  runs :: nat
  maxRun :: nat
  expected :: real
  deviation :: real
  clusterScore :: real

definition runsTest :: "byte list \<Rightarrow> runsResult" where
  "runsTest data =
    (let xs = map unat data;
         cls = map (geMedian (median xs)) xs;
         st = (case cls of [] \<Rightarrow> (1, 1, 1) | c # cs \<Rightarrow> runsLoop c cs (1, 1, 1));
         expected = (real (length data) + 1) / 2;
         deviation = (real (fst st) - expected) / expected
     in \<lparr>runs = fst st, maxRun = fst (snd st), expected = expected,
         deviation = deviation, clusterScore = - deviation\<rparr>)"

record chiResult =
  chi2 :: real
  normalized :: real

definition chiSquared :: "byte list \<Rightarrow> chiResult" where
  "chiSquared data =
    (let xs = map unat data;
         expected = real (length data) / 256;
         chi2 = foldl (\<lambda>acc i. acc + (real (count_list xs i) - expected)\<^sup>2 / expected)
                  0 [0..<256]
     in \<lparr>chi2 = chi2, normalized = (chi2 - 255) / 255\<rparr>)"

text \<open>
  \<open>serialCorrelation\<close>. \<open>n = data.length - 1\<close> is \<open>-1\<close> on the empty sample, where
  the loop body never runs. The five sums range over \<open>i = 0 .. n - 1\<close>.
\<close>

definition lagSum :: "nat list \<Rightarrow> (nat \<Rightarrow> nat \<Rightarrow> nat) \<Rightarrow> real" where
  "lagSum xs f = real (foldl (\<lambda>acc i. acc + f (xs ! i) (xs ! (i + 1))) 0 [0..<length xs - 1])"

definition corrNum :: "byte list \<Rightarrow> real" where
  "corrNum data =
    (let xs = map unat data; n = real_of_int (int (length data) - 1)
     in n * lagSum xs (\<lambda>x y. x * y) - lagSum xs (\<lambda>x y. x) * lagSum xs (\<lambda>x y. y))"

definition corrDen :: "byte list \<Rightarrow> real" where
  "corrDen data =
    (let xs = map unat data; n = real_of_int (int (length data) - 1)
     in sqrt ((n * lagSum xs (\<lambda>x y. x\<^sup>2) - (lagSum xs (\<lambda>x y. x))\<^sup>2)
            * (n * lagSum xs (\<lambda>x y. y\<^sup>2) - (lagSum xs (\<lambda>x y. y))\<^sup>2)))"

definition serialCorrelation :: "byte list \<Rightarrow> real" where
  "serialCorrelation data = (if corrDen data = 0 then 0 else corrNum data / corrDen data)"

text \<open>
  \<open>monteCarloDeviation\<close>. \<open>(hi << 8) | lo\<close> works on 32-bit integers. With no complete
  group of four bytes, \<open>pairs\<close> is 0 and the estimate is \<open>0 / 0\<close>; the model keeps the
  formula, and \<open>fullEntropyAnalysis\<close> below rejects such samples.
\<close>

definition coord16 :: "byte \<Rightarrow> byte \<Rightarrow> nat" where
  "coord16 hi lo = unat (push_bit 8 (ucast hi :: 32 word) OR (ucast lo :: 32 word))"

definition insideCircle :: "byte list \<Rightarrow> nat \<Rightarrow> bool" where
  "insideCircle data i =
    (let x = real (coord16 (data ! (i * 4)) (data ! (i * 4 + 1))) / 65536;
         y = real (coord16 (data ! (i * 4 + 2)) (data ! (i * 4 + 3))) / 65536
     in x * x + y * y \<le> 1)"

definition mcInside :: "byte list \<Rightarrow> nat" where
  "mcInside data =
    foldl (\<lambda>inside i. if insideCircle data i then inside + 1 else inside)
      0 [0..<length data div 4]"

record mcResult =
  piEstimate :: real
  mc_deviation :: real

definition monteCarloDeviation :: "byte list \<Rightarrow> mcResult" where
  "monteCarloDeviation data =
    (let pairs = length data div 4;
         piEstimate = (4 * real (mcInside data)) / real pairs
     in \<lparr>piEstimate = piEstimate, mc_deviation = \<bar>piEstimate - pi\<bar> / pi\<rparr>)"

text \<open>
  \<open>fullEntropyAnalysis\<close>, applied to the sample it draws. The result record keeps the
  source's fields except \<open>timestamp\<close>; the field \<open>runs\<close> of the source is \<open>runsRes\<close>
  here. \<open>rawAnomaly\<close> is the local constant \<open>anomalyScore\<close> of the source, the weighted
  sum before the scaling; the field \<open>anomalyScore\<close> of the result is
  \<open>Math.min(anomalyScore * 3, 1)\<close>.

  A sample shorter than six bytes reads \<open>undefined\<close> at one of the positions 0 to 5,
  and a sample shorter than four bytes divides zero by zero, so that a field of the
  result is \<open>NaN\<close>. The model returns \<open>None\<close> for these samples. From six bytes on
  every divisor is positive and every read is inside the sample.
\<close>

datatype polarity = Positive | Negative | Neutral

record direction =
  angle :: real
  magnitude :: real
  actionSeed :: nat

record entropyAnalysis =
  shannon :: real
  runsRes :: runsResult
  chi :: chiResult
  corr :: real
  mc :: mcResult
  anomalyScore :: real
  direction :: direction
  polarity :: polarity
  polarityRaw :: real
  rawData :: "byte list"

definition rawAnomaly :: "byte list \<Rightarrow> real" where
  "rawAnomaly data =
    (let entropyDev = \<bar>8 - shannonEntropy data\<bar> / 8
     in entropyDev * 0.2
        + \<bar>deviation (runsTest data)\<bar> * 0.25
        + \<bar>normalized (chiSquared data)\<bar> * 0.2
        + \<bar>serialCorrelation data\<bar> * 0.15
        + mc_deviation (monteCarloDeviation data) * 0.2)"

definition anomalyBias :: "byte list \<Rightarrow> real" where
  "anomalyBias data = (if rawAnomaly data > 0.1 then 0.2 else - 0.1)"

definition rawPolarity :: "byte list \<Rightarrow> real" where
  "rawPolarity data = (real (unat (data ! 5)) / 255) * 2 - 1"

definition fullEntropyAnalysis :: "byte list \<Rightarrow> entropyAnalysis option" where
  "fullEntropyAnalysis data =
    (if length data < 6 then None
     else
       let pol = rawPolarity data + anomalyBias data
       in Some
         \<lparr>shannon = shannonEntropy data,
          runsRes = runsTest data,
          chi = chiSquared data,
          corr = serialCorrelation data,
          mc = monteCarloDeviation data,
          anomalyScore = min (rawAnomaly data * 3) 1,
          direction =
            \<lparr>angle = real (coord16 (data ! 0) (data ! 1)) / 65536 * 360,
             magnitude = real (coord16 (data ! 2) (data ! 3)) / 65536,
             actionSeed = unat (data ! 4) mod 8\<rparr>,
          polarity = (if pol > 0 then Positive else Negative),
          polarityRaw = pol,
          rawData = take 64 data\<rparr>)"

section \<open>Decision scorer\<close>

text \<open>
  \<open>evaluateDecision(a, b)\<close>. An option descriptor carries six flags and the \<open>gut\<close>
  string. The fixed note texts pushed by the scorer are the constructors of \<open>noteText\<close>, in
  the order they occur in the source:
  "Novel - expands possibility space", "Familiar - predictable",
  "New people = new weak ties", "Crowd exposure", "Reversible - low risk",
  "Irreversible - higher stakes", "Opens future paths", "Closes paths",
  "Intuition says yes", "Growth-edge anxiety", "Dread signal", "No intuition signal".
\<close>

record decisionOption =
  isNovel :: bool
  meetsNew :: bool
  crowd :: bool
  reversible :: bool
  opens :: bool
  closes :: bool
  gut :: string

datatype noteText =
    NoteNovel | NoteFamiliar | NoteNewPeople | NoteCrowd | NoteReversible
  | NoteIrreversible | NoteOpens | NoteCloses | NoteIntuitionYes | NoteGrowthEdge
  | NoteDread | NoteNoIntuition

record scored =
  score :: int
  score_notes :: "noteText list"

text \<open>
  The verdict is one of three template strings; the two that name an option embed the
  margin (\<open>d\<close> for option A, \<open>|d|\<close> for option B).
\<close>

datatype verdict = NearEqual | OptionA int | OptionB int

record decisionResult =
  opt_a :: scored
  opt_b :: scored
  diff :: int
  verdict :: verdict

text \<open>One \<open>if\<close> statement of the inner function \<open>sc\<close>: add to \<open>s\<close>, push onto \<open>n\<close>.\<close>

definition bump :: "int \<Rightarrow> noteText \<Rightarrow> scored \<Rightarrow> scored" where
  "bump d t r = \<lparr>score = score r + d, score_notes = score_notes r @ [t]\<rparr>"

definition sc :: "decisionOption \<Rightarrow> scored" where
  "sc o1 =
    (let r0 = \<lparr>score = 0, score_notes = []\<rparr>;
         r1 = (if isNovel o1 then bump 25 NoteNovel r0 else bump 5 NoteFamiliar r0);
         r2 = (if meetsNew o1 then bump 20 NoteNewPeople r1 else r1);
         r3 = (if crowd o1 then bump 10 NoteCrowd r2 else r2);
         r4 = (if reversible o1 then bump 15 NoteReversible r3 else bump 5 NoteIrreversible r3);
         r5 = (if opens o1 then bump 20 NoteOpens r4 else r4);
         r6 = (if closes o1 then bump (- 10) NoteCloses r5 else r5)
     in if gut o1 = ''excited'' then bump 15 NoteIntuitionYes r6
        else if gut o1 = ''anxious'' then bump 10 NoteGrowthEdge r6
        else if gut o1 = ''dread'' then bump (- 5) NoteDread r6
        else bump 0 NoteNoIntuition r6)"

definition evaluateDecision :: "decisionOption \<Rightarrow> decisionOption \<Rightarrow> decisionResult" where
  "evaluateDecision a b =
    (let ra = sc a; rb = sc b; d = score ra - score rb
     in \<lparr>opt_a = ra, opt_b = rb, diff = d,
         verdict = (if \<bar>d\<bar> < 10 then NearEqual
                    else if d > 0 then OptionA d else OptionB \<bar>d\<bar>)\<rparr>)"

section \<open>Temporal gate\<close>

text \<open>
  \<open>temporalGate(date)\<close> reads \<open>date.getHours()\<close> and \<open>date.getMinutes()\<close>; these are
  the two arguments of the model. A gate keeps its name, its range and its energy (the
  descriptive \<open>quality\<close> text is left out).
\<close>

record gate =
  gate_name :: string
  range_lo :: real
  range_hi :: real
  gate_energy :: real

definition gates :: "gate list" where
  "gates =
   [\<lparr>gate_name = ''Deep Void'', range_lo = 0, range_hi = 3, gate_energy = 0.6\<rparr>,
    \<lparr>gate_name = ''Pre-Dawn Liminal'', range_lo = 3, range_hi = 5, gate_energy = 0.8\<rparr>,
    \<lparr>gate_name = ''Dawn Gate'', range_lo = 5, range_hi = 7, gate_energy = 0.9\<rparr>,
    \<lparr>gate_name = ''Morning Ascent'', range_lo = 7, range_hi = 10, gate_energy = 0.7\<rparr>,
    \<lparr>gate_name = ''Solar Apex'', range_lo = 10, range_hi = 13, gate_energy = 0.5\<rparr>,
    \<lparr>gate_name = ''Afternoon Drift'', range_lo = 13, range_hi = 16, gate_energy = 0.4\<rparr>,
    \<lparr>gate_name = ''Twilight Gate'', range_lo = 16, range_hi = 19, gate_energy = 0.85\<rparr>,
    \<lparr>gate_name = ''Evening Integration'', range_lo = 19, range_hi = 22, gate_energy = 0.6\<rparr>,
    \<lparr>gate_name = ''Night Descent'', range_lo = 22, range_hi = 24, gate_energy = 0.7\<rparr>]"

definition fractionalHour :: "nat \<Rightarrow> nat \<Rightarrow> real" where
  "fractionalHour hours minutes = real hours + real minutes / 60"

definition inRange :: "real \<Rightarrow> gate \<Rightarrow> bool" where
  "inRange h g = (h \<ge> range_lo g \<and> h < range_hi g)"

record gateReading =
  selected :: gate
  hour :: real

definition temporalGate :: "nat \<Rightarrow> nat \<Rightarrow> gateReading" where
  "temporalGate hours minutes =
    (let h = fractionalHour hours minutes
     in \<lparr>selected = (case find (inRange h) gates of Some g \<Rightarrow> g | None \<Rightarrow> hd gates),
         hour = h\<rparr>)"

section \<open>Lunar phase\<close>









section \<open>Pattern detector: the streak scan\<close>

text \<open>
  A log event as \<open>analyzePatterns\<close> reads it. The streak section of
  \<open>analyzePatterns\<close> is modelled: the early return on fewer than three events, the
  scan with the state \<open>(streak, maxStreak, sPolarity)\<close>, and the pattern pushed when
  \<open>maxStreak >= 3\<close>. The label of that pattern embeds \<open>maxStreak\<close> and \<open>sPolarity\<close>;
  the suggestion is one of two fixed texts ("Positive current - increase exposure.",
  "Friction streak - broaden environment.").
\<close>

record logEvent =
  ev_text :: string
  ev_polarity :: polarity
  ev_category :: "string option"
  ev_timestamp :: int

fun streakLoop ::
  "polarity \<Rightarrow> polarity list \<Rightarrow> nat \<times> nat \<times> polarity \<Rightarrow> nat \<times> nat \<times> polarity" where
  "streakLoop prev [] st = st"
| "streakLoop prev (p # ps) (streak, maxStreak, sPolarity) =
     streakLoop p ps
       (if p = prev
        then (if streak + 1 > maxStreak then (streak + 1, streak + 1, p)
              else (streak + 1, maxStreak, sPolarity))
        else (1, maxStreak, sPolarity))"

datatype streakSuggestion = IncreaseExposure | BroadenEnvironment

record streakPattern =
  streak_length :: nat
  streak_polarity :: polarity
  suggestion :: streakSuggestion
  strength :: real

definition analyzePatterns_streak :: "logEvent list \<Rightarrow> streakPattern option" where
  "analyzePatterns_streak events =
    (if length events < 3 then None
     else case map ev_polarity events of
       [] \<Rightarrow> None
     | p0 # ps \<Rightarrow>
         (case streakLoop p0 ps (1, 1, p0) of
            (streak, maxStreak, sPolarity) \<Rightarrow>
              if maxStreak \<ge> 3
              then Some \<lparr>streak_length = maxStreak, streak_polarity = sPolarity,
                         suggestion = (if sPolarity = Positive then IncreaseExposure
                                       else BroadenEnvironment),
                         strength = real maxStreak / real (length events)\<rparr>
              else None))"

section \<open>Runs of a sequence\<close>

text \<open>
  The notions the statements about runs are measured against: the maximal blocks of
  consecutive equal elements of a list, each with its value and its length; the length
  of the longest block; the first and the last block of that length.
\<close>

function runsOf :: "'a list \<Rightarrow> ('a \<times> nat) list" where
  "runsOf [] = []"
| "runsOf (x # xs) =
     (x, Suc (length (takeWhile ((=) x) xs))) # runsOf (dropWhile ((=) x) xs)"
  by pat_completeness auto
termination
  by (relation "measure length") (auto simp: less_Suc_eq_le length_dropWhile_le)

fun longestRun :: "('a \<times> nat) list \<Rightarrow> nat" where
  "longestRun [] = 0"
| "longestRun (r # rs) = max (snd r) (longestRun rs)"

definition firstLongest :: "('a \<times> nat) list \<Rightarrow> 'a \<times> nat" where
  "firstLongest rs = hd (filter (\<lambda>r. snd r = longestRun rs) rs)"

definition lastLongest :: "('a \<times> nat) list \<Rightarrow> 'a \<times> nat" where
  "lastLongest rs = last (filter (\<lambda>r. snd r = longestRun rs) rs)"

text \<open>
  Keeping the longest block seen so far, replaced only by a strictly longer one.
\<close>

fun keepLonger :: "nat \<times> 'a \<Rightarrow> 'a \<times> nat \<Rightarrow> nat \<times> 'a" where
  "keepLonger (m, sp) (p, l) = (if l > m then (l, p) else (m, sp))"

text \<open>
  The two ways to split bytes around a median \<open>m\<close>: at or above it against strictly
  below it, and strictly above it against below or equal to it.
\<close>

definition atOrAboveMedian :: "nat \<Rightarrow> byte \<Rightarrow> bool" where
  "atOrAboveMedian m b = (unat b \<ge> m)"

definition aboveMedian :: "nat \<Rightarrow> byte \<Rightarrow> bool" where
  "aboveMedian m b = (unat b > m)"

text \<open>Sample inputs used below.\<close>

definition mkEvent :: "int \<Rightarrow> polarity \<Rightarrow> logEvent" where
  "mkEvent t p = \<lparr>ev_text = [], ev_polarity = p, ev_category = None, ev_timestamp = t\<rparr>"

definition tieEvents :: "logEvent list" where
  "tieEvents = [mkEvent 1 Positive, mkEvent 2 Positive, mkEvent 3 Positive,
                mkEvent 4 Negative, mkEvent 5 Negative, mkEvent 6 Negative]"

text \<open>
  A sample of 64 bytes, with the values of its bytes and, position by position, how
  often the byte at that position occurs in the sample.
\<close>

definition sample64 :: "byte list" where
  "sample64 =
    [74, 225, 134, 204, 219, 166, 124, 161, 21, 137, 240, 56, 161, 181,
     64, 74, 97, 147, 125, 125, 47, 196, 19, 191, 141, 35, 79, 231, 152,
     82, 128, 132, 117, 70, 23, 239, 249, 86, 157, 216, 164, 7, 163, 218,
     218, 229, 167, 129, 111, 236, 56, 224, 55, 87, 77, 240, 91, 212, 122,
     25, 4, 63, 7, 97]"

definition sample64_vals :: "nat list" where
  "sample64_vals =
    [74, 225, 134, 204, 219, 166, 124, 161, 21, 137, 240, 56, 161, 181,
     64, 74, 97, 147, 125, 125, 47, 196, 19, 191, 141, 35, 79, 231, 152,
     82, 128, 132, 117, 70, 23, 239, 249, 86, 157, 216, 164, 7, 163, 218,
     218, 229, 167, 129, 111, 236, 56, 224, 55, 87, 77, 240, 91, 212, 122,
     25, 4, 63, 7, 97]"

definition sample64_counts :: "nat list" where
  "sample64_counts =
    [2, 1, 1, 1, 1, 1, 1, 2, 1, 1, 2, 2, 2, 1, 1, 2, 2, 1, 2, 2, 1, 1, 1,
     1, 1, 1, 1, 1, 1, 1, 1, 1, 1, 1, 1, 1, 1, 1, 1, 1, 1, 2, 1, 2, 2, 1,
     1, 1, 1, 1, 2, 1, 1, 1, 1, 2, 1, 1, 1, 1, 1, 1, 2, 2]"

definition zigzag9 :: "byte list" where
  "zigzag9 = [5, 1, 9, 1, 9, 1, 9, 1, 9]"

section \<open>Pearson correlation\<close>

text \<open>
  The reference notion for \<open>serialCorrelation\<close>: the Pearson correlation coefficient of
  a list of paired observations, the covariance sum over the product of the square
  roots of the two variance sums. \<open>lagPairs\<close> pairs each byte of a sample with its
  successor, that is the sequence with itself shifted by one position.
\<close>

definition pearsonDen :: "(real \<times> real) list \<Rightarrow> real" where
  "pearsonDen ps =
    (let n = real (length ps);
         mx = (\<Sum>p\<leftarrow>ps. fst p) / n;
         my = (\<Sum>p\<leftarrow>ps. snd p) / n
     in sqrt (\<Sum>p\<leftarrow>ps. (fst p - mx)\<^sup>2) * sqrt (\<Sum>p\<leftarrow>ps. (snd p - my)\<^sup>2))"

definition pearson :: "(real \<times> real) list \<Rightarrow> real" where
  "pearson ps =
    (let n = real (length ps);
         mx = (\<Sum>p\<leftarrow>ps. fst p) / n;
         my = (\<Sum>p\<leftarrow>ps. snd p) / n
     in (\<Sum>p\<leftarrow>ps. (fst p - mx) * (snd p - my)) / pearsonDen ps)"

definition lagPairs :: "byte list \<Rightarrow> (real \<times> real) list" where
  "lagPairs data =
    (let xs = map unat data in map (\<lambda>(x, y). (real x, real y)) (zip xs (tl xs)))"

section \<open>Properties of the anomaly reducer\<close>

lemma foldl_add_sum_list:
  "foldl (\<lambda>acc i. acc + f i) (a::real) xs = a + sum_list (map f xs)"
  by (induction xs arbitrary: a) simp_all

lemma chi2_sum:
  "chi2 (chiSquared data) =
     (\<Sum>i<256. (real (count_list (map unat data) i) - real (length data) / 256)\<^sup>2
                 / (real (length data) / 256))"
  by (simp add: chiSquared_def Let_def foldl_add_sum_list
      interv_sum_list_conv_sum_set_nat atLeast0LessThan)

lemma rawAnomaly_nonneg: "0 \<le> rawAnomaly data"
  by (simp add: rawAnomaly_def Let_def monteCarloDeviation_def)

lemma rawAnomaly_ge_chi: "\<bar>normalized (chiSquared data)\<bar> * 0.2 \<le> rawAnomaly data"
  by (simp add: rawAnomaly_def Let_def monteCarloDeviation_def)

text \<open>
  On a constant sample the bucket of the repeated byte alone contributes
  \<open>n * 255\<^sup>2 / 256\<close> to the chi-squared statistic.
\<close>

lemma chi2_replicate_ge:
  assumes "0 < n"
  shows "real n * 254 \<le> chi2 (chiSquared (replicate n c))"
proof -
  let ?e = "real n / 256"
  let ?f = "\<lambda>i. (real (count_list (map unat (replicate n c)) i) - ?e)\<^sup>2 / ?e"
  have k: "unat c \<in> {..<256::nat}"
    using unsigned_less[of c] by simp
  have "?f (unat c) \<le> (\<Sum>i<256. ?f i)"
    by (rule member_le_sum[OF k]) (use assms in simp_all)
  moreover have "count_list (map unat (replicate n c)) (unat c) = n"
    by (induction n) simp_all
  moreover have "(real n - ?e)\<^sup>2 / ?e = real n * (65025 / 256)"
    using assms by (simp add: power2_eq_square field_simps)
  ultimately have "real n * (65025 / 256) \<le> chi2 (chiSquared (replicate n c))"
    by (simp add: chi2_sum)
  moreover have "real n * 254 \<le> real n * (65025 / 256)"
    by (rule mult_left_mono) simp_all
  ultimately show ?thesis by linarith
qed

lemma rawAnomaly_replicate_ge:
  assumes "8 \<le> n"
  shows "1 \<le> rawAnomaly (replicate n c)"
proof -
  have "real n * 254 \<le> chi2 (chiSquared (replicate n c))"
    using assms by (intro chi2_replicate_ge) simp
  moreover have "8 * 254 \<le> real n * 254"
    using assms by simp
  ultimately have "2032 \<le> chi2 (chiSquared (replicate n c))"
    by linarith
  moreover have "normalized (chiSquared (replicate n c))
      = (chi2 (chiSquared (replicate n c)) - 255) / 255"
    by (simp add: chiSquared_def Let_def)
  ultimately have "6 \<le> normalized (chiSquared (replicate n c))"
    by simp
  then show ?thesis
    using rawAnomaly_ge_chi[of "replicate n c"] by simp
qed

lemma constant_sample_replicate:
  assumes "\<forall>b\<in>set data. b = c"
  shows "data = replicate (length data) c"
  using assms by (induction data) simp_all




text \<open>
  C2. For every sample of at least eight bytes the analysis returns a record whose
  \<open>anomalyScore\<close> lies in the closed interval from 0 to 1.
\<close>

theorem anomalyScore_in_unit_interval:
  assumes "8 \<le> length data"
  shows "\<exists>r. fullEntropyAnalysis data = Some r \<and> 0 \<le> anomalyScore r \<and> anomalyScore r \<le> 1"
  using assms rawAnomaly_nonneg[of data] by (simp add: fullEntropyAnalysis_def Let_def)

theorem anomalyScore_in_unit_interval_witness:
  "8 \<le> length (replicate 8 (0::byte))
   \<and> (\<exists>r. fullEntropyAnalysis (replicate 8 0) = Some r
           \<and> 0 \<le> anomalyScore r \<and> anomalyScore r \<le> 1)"
  using anomalyScore_in_unit_interval[of "replicate 8 (0::byte)"] by simp

text \<open>
  C3. For every sample of at least eight bytes that are all equal, the analysis
  returns a record (no field is \<open>NaN\<close>) and its \<open>anomalyScore\<close> is exactly 1.
\<close>

theorem anomalyScore_constant_sample:
  assumes "8 \<le> length data" and "\<forall>b\<in>set data. b = c"
  shows "\<exists>r. fullEntropyAnalysis data = Some r \<and> anomalyScore r = 1"
proof -
  have "data = replicate (length data) c"
    using assms(2) by (rule constant_sample_replicate)
  then have "1 \<le> rawAnomaly data"
    using rawAnomaly_replicate_ge[OF assms(1), of c] by simp
  then show ?thesis
    using assms(1) by (simp add: fullEntropyAnalysis_def Let_def)
qed

theorem anomalyScore_constant_sample_witness:
  "8 \<le> length (replicate 9 (7::byte)) \<and> set (replicate 9 (7::byte)) = {7}
   \<and> (\<exists>r. fullEntropyAnalysis (replicate 9 7) = Some r \<and> anomalyScore r = 1)"
  using anomalyScore_constant_sample[of "replicate 9 (7::byte)" 7] by simp

section \<open>Properties of the serial correlation\<close>

lemma foldl_add_nat:
  "foldl (\<lambda>acc i. acc + f i) (a::nat) xs = a + sum_list (map f xs)"
  by (induction xs arbitrary: a) simp_all

lemma lag_index_zip:
  "map (\<lambda>i. f (xs ! i) (xs ! (i + 1))) [0..<length xs - 1] = map (\<lambda>(x, y). f x y) (zip xs (tl xs))"
  by (rule nth_equalityI) (simp_all add: nth_tl)

lemma lagSum_zip: "lagSum xs f = real (\<Sum>(x, y)\<leftarrow>zip xs (tl xs). f x y)"
proof -
  have "foldl (\<lambda>acc i. acc + f (xs ! i) (xs ! (i + 1))) 0 [0..<length xs - 1]
      = sum_list (map (\<lambda>i. f (xs ! i) (xs ! (i + 1))) [0..<length xs - 1])"
    by (simp only: foldl_add_nat add_0)
  also have "\<dots> = (\<Sum>(x, y)\<leftarrow>zip xs (tl xs). f x y)"
    by (simp only: lag_index_zip)
  finally show ?thesis
    by (simp only: lagSum_def)
qed

lemma lagSum_pairs:
  "lagSum (map unat data) (\<lambda>x y. x * y) = (\<Sum>p\<leftarrow>lagPairs data. fst p * snd p)"
  "lagSum (map unat data) (\<lambda>x y. x) = (\<Sum>p\<leftarrow>lagPairs data. fst p)"
  "lagSum (map unat data) (\<lambda>x y. y) = (\<Sum>p\<leftarrow>lagPairs data. snd p)"
  "lagSum (map unat data) (\<lambda>x y. x\<^sup>2) = (\<Sum>p\<leftarrow>lagPairs data. (fst p)\<^sup>2)"
  "lagSum (map unat data) (\<lambda>x y. y\<^sup>2) = (\<Sum>p\<leftarrow>lagPairs data. (snd p)\<^sup>2)"
  by (simp_all add: lagSum_zip lagPairs_def Let_def sum_list_of_nat[symmetric] comp_def case_prod_unfold)

lemma lagPairs_length: "length (lagPairs data) = length data - 1"
  by (simp add: lagPairs_def Let_def)

lemma centered_products:
  fixes ps :: "(real \<times> real) list"
  shows "(\<Sum>p\<leftarrow>ps. (fst p - a) * (snd p - b))
    = (\<Sum>p\<leftarrow>ps. fst p * snd p) - a * (\<Sum>p\<leftarrow>ps. snd p) - b * (\<Sum>p\<leftarrow>ps. fst p)
      + real (length ps) * a * b"
  by (induction ps) (simp_all add: algebra_simps)

lemma centered_scaled:
  fixes ps :: "(real \<times> real) list"
  assumes "ps \<noteq> []"
  defines "n \<equiv> real (length ps)"
  shows "n * (\<Sum>p\<leftarrow>ps. (fst p - (\<Sum>p\<leftarrow>ps. fst p) / n) * (snd p - (\<Sum>p\<leftarrow>ps. snd p) / n))
    = n * (\<Sum>p\<leftarrow>ps. fst p * snd p) - (\<Sum>p\<leftarrow>ps. fst p) * (\<Sum>p\<leftarrow>ps. snd p)"
proof -
  have n: "n > 0" using assms by simp
  show ?thesis
    unfolding centered_products n_def[symmetric] using n
    by (simp add: field_simps)
qed


lemma centered_squares:
  fixes f :: "'a \<Rightarrow> real"
  shows "(\<Sum>p\<leftarrow>ps. (f p - a)\<^sup>2)
    = (\<Sum>p\<leftarrow>ps. (f p)\<^sup>2) - 2 * a * (\<Sum>p\<leftarrow>ps. f p) + real (length ps) * a\<^sup>2"
  by (induction ps) (simp_all add: algebra_simps power2_eq_square)

lemma centered_squares_scaled:
  fixes f :: "'a \<Rightarrow> real"
  assumes "ps \<noteq> []"
  defines "n \<equiv> real (length ps)"
  shows "n * (\<Sum>p\<leftarrow>ps. (f p - (\<Sum>p\<leftarrow>ps. f p) / n)\<^sup>2)
    = n * (\<Sum>p\<leftarrow>ps. (f p)\<^sup>2) - (\<Sum>p\<leftarrow>ps. f p)\<^sup>2"
proof -
  have n: "n > 0" using assms by simp
  show ?thesis
    unfolding centered_squares n_def[symmetric] using n
    by (simp add: field_simps power2_eq_square)
qed

lemma corr_count:
  assumes "lagPairs data \<noteq> []"
  shows "real_of_int (int (length data) - 1) = real (length (lagPairs data))"
  using assms by (cases data) (simp_all add: lagPairs_def Let_def)

lemma corrDen_no_pairs:
  assumes "lagPairs data = []"
  shows "corrDen data = 0"
  using assms by (simp add: corrDen_def Let_def lagSum_pairs)

lemma corrDen_pearsonDen:
  assumes "lagPairs data \<noteq> []"
  shows "corrDen data = real (length (lagPairs data)) * pearsonDen (lagPairs data)"
proof -
  let ?ps = "lagPairs data"
  define n where "n = real (length ?ps)"
  define Cxx where "Cxx = (\<Sum>p\<leftarrow>?ps. (fst p - (\<Sum>p\<leftarrow>?ps. fst p) / n)\<^sup>2)"
  define Cyy where "Cyy = (\<Sum>p\<leftarrow>?ps. (snd p - (\<Sum>p\<leftarrow>?ps. snd p) / n)\<^sup>2)"
  have n1: "real_of_int (int (length data) - 1) = n"
    unfolding n_def by (rule corr_count[OF assms])
  have n2: "0 < n"
    using assms by (simp add: n_def)
  have A: "n * (\<Sum>p\<leftarrow>?ps. (fst p)\<^sup>2) - (\<Sum>p\<leftarrow>?ps. fst p)\<^sup>2 = n * Cxx"
    unfolding Cxx_def n_def
    by (rule centered_squares_scaled[OF assms, symmetric])
  have B: "n * (\<Sum>p\<leftarrow>?ps. (snd p)\<^sup>2) - (\<Sum>p\<leftarrow>?ps. snd p)\<^sup>2 = n * Cyy"
    unfolding Cyy_def n_def
    by (rule centered_squares_scaled[OF assms, symmetric])
  have "corrDen data = sqrt ((n * Cxx) * (n * Cyy))"
    unfolding corrDen_def Let_def lagSum_pairs n1 A B ..
  also have "\<dots> = sqrt (n\<^sup>2 * (Cxx * Cyy))"
    by (simp add: power2_eq_square algebra_simps)
  also have "\<dots> = n * (sqrt Cxx * sqrt Cyy)"
    using n2 by (simp add: real_sqrt_mult)
  also have "sqrt Cxx * sqrt Cyy = pearsonDen ?ps"
    by (simp add: pearsonDen_def Let_def Cxx_def Cyy_def n_def)
  finally show ?thesis
    by (simp add: n_def)
qed

lemma corrDen_zero_iff: "(corrDen data = 0) = (pearsonDen (lagPairs data) = 0)"
proof (cases "lagPairs data = []")
  case True
  then show ?thesis
    by (simp add: corrDen_no_pairs pearsonDen_def)
next
  case False
  then show ?thesis
    by (simp add: corrDen_pearsonDen)
qed

lemma serialCorrelation_is_pearson:
  assumes "corrDen data \<noteq> 0"
  shows "serialCorrelation data = pearson (lagPairs data)"
proof -
  let ?ps = "lagPairs data"
  define n where "n = real (length ?ps)"
  define Cxy where "Cxy = (\<Sum>p\<leftarrow>?ps. (fst p - (\<Sum>p\<leftarrow>?ps. fst p) / n) * (snd p - (\<Sum>p\<leftarrow>?ps. snd p) / n))"
  have ne: "?ps \<noteq> []"
    using assms corrDen_no_pairs by blast
  have n1: "real_of_int (int (length data) - 1) = n"
    unfolding n_def by (rule corr_count[OF ne])
  have n2: "0 < n"
    using ne by (simp add: n_def)
  have num: "corrNum data = n * Cxy"
    unfolding corrNum_def Let_def lagSum_pairs n1 Cxy_def n_def
    by (rule centered_scaled[OF ne, symmetric])
  have den: "corrDen data = n * pearsonDen ?ps"
    unfolding n_def by (rule corrDen_pearsonDen[OF ne])
  have "serialCorrelation data = (n * Cxy) / (n * pearsonDen ?ps)"
    using assms by (simp add: serialCorrelation_def num den)
  also have "\<dots> = Cxy / pearsonDen ?ps"
    using n2 by simp
  also have "\<dots> = pearson ?ps"
    by (simp add: pearson_def Let_def Cxy_def n_def)
  finally show ?thesis .
qed

lemma corrDen_replicate: "corrDen (replicate n c) = 0"
proof (cases n)
  case 0
  then show ?thesis by (simp add: corrDen_def Let_def lagSum_def)
next
  case (Suc k)
  have ps: "lagPairs (replicate (Suc k) c) = replicate k (real (unat c), real (unat c))"
    by (simp add: lagPairs_def Let_def flip: replicate_Suc)
  show ?thesis
    unfolding Suc corrDen_def Let_def lagSum_pairs ps
    by (simp add: sum_list_replicate map_replicate_const power2_eq_square algebra_simps)
qed

text \<open>
  C9. \<open>serialCorrelation\<close> returns 0 when the denominator of the lag-1 Pearson
  correlation is zero, and the Pearson correlation of the sample with itself shifted by
  one position otherwise. The denominator computed by the code is zero exactly when
  the Pearson denominator is; on a constant sample it is zero and the result is 0.
\<close>

theorem serialCorrelation_pearson_or_zero:
  "serialCorrelation data
     = (if pearsonDen (lagPairs data) = 0 then 0 else pearson (lagPairs data))
   \<and> (corrDen data = 0) = (pearsonDen (lagPairs data) = 0)
   \<and> corrDen (replicate n c) = 0
   \<and> serialCorrelation (replicate n c) = 0"
  using serialCorrelation_is_pearson[of data] corrDen_replicate[of n c] corrDen_zero_iff[of data]
  by (simp add: serialCorrelation_def)

section \<open>Samples of six bytes or more\<close>

text \<open>
  What the \<open>None\<close> of \<open>fullEntropyAnalysis\<close> rests on: from six bytes on every divisor
  of the five statistics is positive, and the number under the square root of
  \<open>serialCorrelation\<close> is never negative, for any sample.
\<close>

lemma variance_sum_nonneg:
  fixes f :: "'a \<Rightarrow> real"
  shows "0 \<le> real (length ps) * (\<Sum>p\<leftarrow>ps. (f p)\<^sup>2) - (\<Sum>p\<leftarrow>ps. f p)\<^sup>2"
proof (cases "ps = []")
  case True
  then show ?thesis by simp
next
  case False
  have "0 \<le> (\<Sum>p\<leftarrow>ps. (f p - (\<Sum>p\<leftarrow>ps. f p) / real (length ps))\<^sup>2)"
    by (rule sum_list_nonneg) auto
  then have "0 \<le> real (length ps) * (\<Sum>p\<leftarrow>ps. (f p - (\<Sum>p\<leftarrow>ps. f p) / real (length ps))\<^sup>2)"
    by simp
  then show ?thesis
    by (simp only: centered_squares_scaled[OF False])
qed

lemma corr_radicand_nonneg:
  fixes data :: "byte list"
  shows "0 \<le> (real_of_int (int (length data) - 1) * lagSum (map unat data) (\<lambda>x y. x\<^sup>2)
          - (lagSum (map unat data) (\<lambda>x y. x))\<^sup>2)
        * (real_of_int (int (length data) - 1) * lagSum (map unat data) (\<lambda>x y. y\<^sup>2)
          - (lagSum (map unat data) (\<lambda>x y. y))\<^sup>2)"
proof (cases "lagPairs data = []")
  case True
  then show ?thesis
    by (simp add: lagSum_pairs)
next
  case False
  show ?thesis
    unfolding lagSum_pairs corr_count[OF False]
    by (intro mult_nonneg_nonneg variance_sum_nonneg)
qed

lemma divisors_positive:
  fixes data :: "byte list"
  assumes "6 \<le> length data"
  shows "0 < real (length data)"
    and "0 < expected (runsTest data)"
    and "0 < real (length data) / 256"
    and "0 < real (length data div 4)"
proof -
  have "0 < length data" "0 < length data div 4"
    using assms by (auto simp: div_greater_zero_iff)
  then show "0 < real (length data)" "0 < real (length data) / 256"
      "0 < real (length data div 4)"
    by simp_all
  show "0 < expected (runsTest data)"
    by (simp add: runsTest_def Let_def add_pos_nonneg)
qed

section \<open>Properties of the anomaly bias\<close>

text \<open>
  Sums over the distinct byte values, weighted by their counts, are sums over the
  positions of the sample. This turns the entropy and the chi-squared statistic into
  sums over the per-position counts.
\<close>

lemma sum_list_pick:
  fixes h :: "'a \<Rightarrow> real"
  assumes "distinct ks" and "x \<in> set ks"
  shows "(\<Sum>k\<leftarrow>ks. if x = k then h k else 0) = h x"
  using assms by (simp add: sum_list_distinct_conv_sum_set)

lemma sum_list_by_count:
  fixes h :: "nat \<Rightarrow> real"
  assumes "distinct ks" and "set xs \<subseteq> set ks"
  shows "(\<Sum>k\<leftarrow>ks. real (count_list xs k) * h k) = (\<Sum>x\<leftarrow>xs. h x)"
  using assms(2)
proof (induction xs)
  case Nil
  then show ?case by simp
next
  case (Cons x xs)
  have "(\<Sum>k\<leftarrow>ks. real (count_list (x # xs) k) * h k)
      = (\<Sum>k\<leftarrow>ks. real (count_list xs k) * h k + (if x = k then h k else 0))"
    by (rule arg_cong[where f = sum_list]) (auto simp: algebra_simps)
  also have "\<dots> = (\<Sum>k\<leftarrow>ks. real (count_list xs k) * h k) + (\<Sum>k\<leftarrow>ks. if x = k then h k else 0)"
    by (simp add: sum_list_addf)
  also have "\<dots> = (\<Sum>x\<leftarrow>xs. h x) + h x"
    using Cons sum_list_pick[OF assms(1), of x h] by simp
  finally show ?case by simp
qed

lemma sum_list_neg:
  fixes g :: "'a \<Rightarrow> real"
  shows "- (\<Sum>k\<leftarrow>ks. g k) = (\<Sum>k\<leftarrow>ks. - g k)"
  by (induction ks) simp_all

lemma foldl_entropy:
  "foldl (\<lambda>H k. if f k > 0 then H - f k * log 2 (f k) else H) (a::real) ks
     = a - (\<Sum>k\<leftarrow>ks. if f k > 0 then f k * log 2 (f k) else 0)"
  by (induction ks arbitrary: a) simp_all

lemma shannon_by_position:
  assumes "data \<noteq> []"
  shows "shannonEntropy data =
    (\<Sum>x\<leftarrow>map unat data.
       - log 2 (real (count_list (map unat data) x) / real (length data)) / real (length data))"
proof -
  let ?xs = "map unat data"
  let ?n = "real (length data)"
  let ?ks = "sort (remdups ?xs)"
  let ?h = "\<lambda>k. - log 2 (real (count_list ?xs k) / ?n) / ?n"
  have n: "0 < ?n" using assms by simp
  have pos: "0 < real (count_list ?xs k) / ?n" if "k \<in> set ?ks" for k
  proof -
    have "k \<in> set ?xs" using that by simp
    then have "count_list ?xs k \<noteq> 0" by (simp only: count_list_0_iff, simp)
    then show ?thesis using n by simp
  qed
  have "shannonEntropy data
      = - (\<Sum>k\<leftarrow>?ks. if real (count_list ?xs k) / ?n > 0
            then real (count_list ?xs k) / ?n * log 2 (real (count_list ?xs k) / ?n) else 0)"
    unfolding shannonEntropy_def Let_def
    by (subst foldl_entropy[where f = "\<lambda>k. real (count_list ?xs k) / ?n"]) simp
  also have "\<dots> = (\<Sum>k\<leftarrow>?ks. real (count_list ?xs k) * ?h k)"
    unfolding sum_list_neg
    by (rule arg_cong[where f = sum_list], rule map_cong[OF refl]) (use pos in auto)
  also have "\<dots> = (\<Sum>x\<leftarrow>?xs. ?h x)"
    by (rule sum_list_by_count) simp_all
  finally show ?thesis .
qed

lemma chi2_by_position:
  assumes "data \<noteq> []"
  shows "chi2 (chiSquared data) =
    (\<Sum>x\<leftarrow>map unat data.
        real (count_list (map unat data) x) / (real (length data) / 256) - 2)
    + real (length data)"
proof -
  let ?xs = "map unat data"
  let ?e = "real (length data) / 256"
  let ?h = "\<lambda>k. real (count_list ?xs k) / ?e - 2"
  have e: "?e \<noteq> 0" using assms by simp
  have sub: "set ?xs \<subseteq> set [0..<256]"
  proof
    fix x assume "x \<in> set ?xs"
    then obtain b :: byte where "x = unat b" by auto
    then show "x \<in> set [0..<256]" using unsigned_less[of b] by simp
  qed
  have "chi2 (chiSquared data) = (\<Sum>i\<leftarrow>[0..<256]. (real (count_list ?xs i) - ?e)\<^sup>2 / ?e)"
    by (simp add: chiSquared_def Let_def foldl_add_sum_list)
  also have "\<dots> = (\<Sum>i\<leftarrow>[0..<256]. real (count_list ?xs i) * ?h i + ?e)"
    by (rule arg_cong[where f = sum_list], rule map_cong[OF refl])
       (use e in \<open>simp add: power2_eq_square field_simps\<close>)
  also have "\<dots> = (\<Sum>i\<leftarrow>[0..<256]. real (count_list ?xs i) * ?h i) + (\<Sum>i\<leftarrow>[0..<256]. ?e)"
    by (simp only: sum_list_addf)
  also have "(\<Sum>i\<leftarrow>[0..<256]. real (count_list ?xs i) * ?h i) = (\<Sum>x\<leftarrow>?xs. ?h x)"
    by (rule sum_list_by_count[OF _ sub]) simp
  also have "(\<Sum>i\<leftarrow>[0..<256]. ?e) = real (length data)"
    by (simp add: sum_list_triv)
  finally show ?thesis .
qed

text \<open>The five statistics on the 64-byte sample.\<close>

lemma unat_sample64: "map unat sample64 = sample64_vals"
  by (simp add: sample64_def sample64_vals_def)

lemma sample64_length: "length sample64 = 64"
  by (simp add: sample64_def)

lemma position_counts_sample64: "map (count_list sample64_vals) sample64_vals = sample64_counts"
  by (simp add: sample64_vals_def sample64_counts_def)

lemma log2_64: "log 2 (1 / 64) = - 6"
proof -
  have "(64::real) = 2 ^ 6" by simp
  then have "log 2 64 = 6" by (simp only: log_pow_cancel)
  then show ?thesis by (simp add: log_divide)
qed

lemma log2_32: "log 2 (1 / 32) = - 5"
proof -
  have "(32::real) = 2 ^ 5" by simp
  then have "log 2 32 = 5" by (simp only: log_pow_cancel)
  then show ?thesis by (simp add: log_divide)
qed

lemma sample64_shannon: "shannonEntropy sample64 = 23 / 4"
proof -
  have ne: "sample64 \<noteq> []" by (simp add: sample64_def)
  have "shannonEntropy sample64
      = (\<Sum>c\<leftarrow>map (count_list sample64_vals) sample64_vals. - log 2 (real c / 64) / 64)"
    unfolding shannon_by_position[OF ne] unat_sample64 sample64_length
    by (simp add: comp_def)
  also have "\<dots> = 23 / 4"
    unfolding position_counts_sample64 sample64_counts_def
    by (simp add: log2_64 log2_32)
  finally show ?thesis .
qed

lemma sample64_chi: "normalized (chiSquared sample64) = 1 / 255"
proof -
  have ne: "sample64 \<noteq> []" by (simp add: sample64_def)
  have "chi2 (chiSquared sample64)
      = (\<Sum>c\<leftarrow>map (count_list sample64_vals) sample64_vals. real c / (64 / 256) - 2) + 64"
    unfolding chi2_by_position[OF ne] unat_sample64 sample64_length
    by (simp add: comp_def)
  also have "\<dots> = 256"
    unfolding position_counts_sample64 sample64_counts_def by simp
  finally have "chi2 (chiSquared sample64) = 256" .
  moreover have "normalized (chiSquared sample64) = (chi2 (chiSquared sample64) - 255) / 255"
    by (simp add: chiSquared_def Let_def)
  ultimately show ?thesis by simp
qed

lemma sample64_median: "median sample64_vals = Some 129"
  by (simp add: sample64_vals_def median_def)

lemma sample64_scan:
  "(case map (geMedian (Some 129)) sample64_vals of
      [] \<Rightarrow> (1, 1, 1) | c # cs \<Rightarrow> runsLoop c cs (1, 1, 1)) = (33, 6, 6)"
  by (simp add: sample64_vals_def geMedian_def)

lemma sample64_runs: "deviation (runsTest sample64) = 1 / 65"
  by (simp add: runsTest_def Let_def unat_sample64 sample64_median sample64_scan sample64_length)

lemma sample64_corr: "serialCorrelation sample64 = 0"
proof -
  have "lagSum sample64_vals (\<lambda>x y. x * y) = 1078130"
       "lagSum sample64_vals (\<lambda>x y. x) = 8230"
       "lagSum sample64_vals (\<lambda>x y. y) = 8253"
    by (simp_all add: lagSum_zip sample64_vals_def)
  then have "corrNum sample64 = 0"
    by (simp add: corrNum_def Let_def unat_sample64 sample64_length)
  then show ?thesis
    by (simp add: serialCorrelation_def)
qed

lemma upt16: "[0..<16] = [0, 1, 2, 3, 4, 5, 6, 7, 8, 9, 10, 11, 12, 13, 14, 15]"
  by (simp add: upt_conv_Cons)

lemma sample64_inside: "mcInside sample64 = 14"
  by (simp add: mcInside_def insideCircle_def coord16_def sample64_def upt16 Let_def)

lemma pi_ge_3: "3 \<le> pi"
proof -
  have "sin (pi / 6) \<le> pi / 6"
    by (rule sin_x_le_x) simp
  then show ?thesis by (simp add: sin_30)
qed

lemma sample64_mc:
  "0 \<le> mc_deviation (monteCarloDeviation sample64)"
  "mc_deviation (monteCarloDeviation sample64) \<le> 1 / 6"
proof -
  have eq: "mc_deviation (monteCarloDeviation sample64) = \<bar>7 / 2 - pi\<bar> / pi"
    by (simp add: monteCarloDeviation_def Let_def sample64_inside sample64_length)
  show "0 \<le> mc_deviation (monteCarloDeviation sample64)"
    by (simp add: eq)
  have "\<bar>7 / 2 - pi\<bar> \<le> 1 / 2"
    using pi_ge_3 pi_less_4 by linarith
  then have "\<bar>7 / 2 - pi\<bar> / pi \<le> (1 / 2) / 3"
    using pi_ge_3 by (intro frac_le) simp_all
  then show "mc_deviation (monteCarloDeviation sample64) \<le> 1 / 6"
    by (simp add: eq)
qed

lemma sample64_rawAnomaly:
  "1 / 30 < rawAnomaly sample64" "rawAnomaly sample64 \<le> 1 / 10"
proof -
  have "rawAnomaly sample64
      = 9 / 160 + 1 / 260 + 1 / 1275 + mc_deviation (monteCarloDeviation sample64) * 0.2"
    by (simp add: rawAnomaly_def Let_def sample64_shannon sample64_runs sample64_chi sample64_corr)
  then show "1 / 30 < rawAnomaly sample64" "rawAnomaly sample64 \<le> 1 / 10"
    using sample64_mc by simp_all
qed

text \<open>
  C4, as the code has it. For every sample of at least eight bytes the bias added to
  the value derived from byte 5 is \<open>+0.2\<close> exactly when the weighted anomaly sum before
  the scaling exceeds \<open>0.1\<close>, that is exactly when the final \<open>anomalyScore\<close> (after
  the scaling by 3 and the clamp) exceeds \<open>0.3\<close>, and \<open>-0.1\<close> otherwise.
\<close>

theorem anomaly_bias_threshold:
  assumes "8 \<le> length data"
  shows "\<exists>r. fullEntropyAnalysis data = Some r
          \<and> anomalyScore r = min (rawAnomaly data * 3) 1
          \<and> polarityRaw r - rawPolarity data = (if anomalyScore r > 0.3 then 0.2 else - 0.1)
          \<and> (anomalyScore r > 0.3) = (rawAnomaly data > 0.1)"
  using assms by (simp add: fullEntropyAnalysis_def Let_def anomalyBias_def min_def)

theorem anomaly_bias_threshold_witness:
  "8 \<le> length sample64
   \<and> (\<exists>r. fullEntropyAnalysis sample64 = Some r
          \<and> anomalyScore r = min (rawAnomaly sample64 * 3) 1
          \<and> polarityRaw r - rawPolarity sample64 = (if anomalyScore r > 0.3 then 0.2 else - 0.1)
          \<and> (anomalyScore r > 0.3) = (rawAnomaly sample64 > 0.1))"
proof -
  have h: "8 \<le> length sample64"
    by (simp add: sample64_length)
  show ?thesis
    using h anomaly_bias_threshold[OF h] by blast
qed

text \<open>
  On the 64-byte sample the weighted sum lies between \<open>1/30\<close> and \<open>1/10\<close>: the final
  \<open>anomalyScore\<close> exceeds \<open>0.1\<close> and the bias is \<open>-0.1\<close>.
\<close>

theorem anomaly_bias_counterexample:
  "fullEntropyAnalysis sample64 \<noteq> None
   \<and> anomalyScore (the (fullEntropyAnalysis sample64)) > 0.1
   \<and> polarityRaw (the (fullEntropyAnalysis sample64)) - rawPolarity sample64 = - 0.1"
proof -
  have "anomalyBias sample64 = - 0.1"
    using sample64_rawAnomaly(2) by (simp add: anomalyBias_def)
  moreover have "min (rawAnomaly sample64 * 3) 1 > 0.1"
    using sample64_rawAnomaly(1) by simp
  ultimately show ?thesis
    by (simp add: fullEntropyAnalysis_def Let_def sample64_length)
qed

section \<open>Properties of the run scans\<close>

lemma runsLoop_runs:
  "fst (runsLoop prev cs (r, m, cur)) = r + length (runsOf (dropWhile ((=) prev) cs))"
  by (induction cs arbitrary: prev r m cur) auto

lemma runsLoop_maxRun:
  "1 \<le> cur \<Longrightarrow> cur \<le> m \<Longrightarrow>
   fst (snd (runsLoop prev cs (r, m, cur))) =
     max m (longestRun ((prev, cur + length (takeWhile ((=) prev) cs))
                          # runsOf (dropWhile ((=) prev) cs)))"
proof (induction cs arbitrary: prev r m cur)
  case Nil
  then show ?case by simp
next
  case (Cons c cs)
  show ?case
  proof (cases "c = prev")
    case True
    have "fst (snd (runsLoop prev (c # cs) (r, m, cur)))
        = fst (snd (runsLoop c cs (r, max m (cur + 1), cur + 1)))"
      using True by simp
    also have "\<dots> = max (max m (cur + 1))
        (longestRun ((c, cur + 1 + length (takeWhile ((=) c) cs)) # runsOf (dropWhile ((=) c) cs)))"
      by (rule Cons.IH) (use Cons.prems in simp_all)
    finally show ?thesis using True by (simp add: max_def)
  next
    case False
    have "fst (snd (runsLoop prev (c # cs) (r, m, cur)))
        = fst (snd (runsLoop c cs (r + 1, m, 1)))"
      using False by simp
    also have "\<dots> = max m
        (longestRun ((c, 1 + length (takeWhile ((=) c) cs)) # runsOf (dropWhile ((=) c) cs)))"
      by (rule Cons.IH) (use Cons.prems in simp_all)
    finally show ?thesis using False Cons.prems by (simp add: max_def)
  qed
qed

lemma streakLoop_foldl:
  "1 \<le> cur \<Longrightarrow> cur \<le> m \<Longrightarrow>
   snd (streakLoop prev ps (cur, m, sp)) =
     foldl keepLonger (m, sp) ((prev, cur + length (takeWhile ((=) prev) ps))
                          # runsOf (dropWhile ((=) prev) ps))"
proof (induction ps arbitrary: prev m sp cur)
  case Nil
  then show ?case by simp
next
  case (Cons p ps)
  show ?case
  proof (cases "p = prev")
    case True
    let ?k = "length (takeWhile ((=) p) ps)"
    let ?rest = "runsOf (dropWhile ((=) p) ps)"
    show ?thesis
    proof (cases "cur + 1 > m")
      case big: True
      have "snd (streakLoop prev (p # ps) (cur, m, sp)) = snd (streakLoop p ps (cur + 1, cur + 1, p))"
        using True big by simp
      also have "\<dots> = foldl keepLonger (cur + 1, p) ((p, cur + 1 + ?k) # ?rest)"
        by (rule Cons.IH) simp_all
      finally show ?thesis using True big by simp
    next
      case small: False
      have "snd (streakLoop prev (p # ps) (cur, m, sp)) = snd (streakLoop p ps (cur + 1, m, sp))"
        using True small by simp
      also have "\<dots> = foldl keepLonger (m, sp) ((p, cur + 1 + ?k) # ?rest)"
        by (rule Cons.IH) (use small in simp_all)
      finally show ?thesis using True by simp
    qed
  next
    case False
    have "snd (streakLoop prev (p # ps) (cur, m, sp)) = snd (streakLoop p ps (1, m, sp))"
      using False by simp
    also have "\<dots> = foldl keepLonger (m, sp)
        ((p, 1 + length (takeWhile ((=) p) ps)) # runsOf (dropWhile ((=) p) ps))"
      by (rule Cons.IH) (use Cons.prems in simp_all)
    finally show ?thesis using False Cons.prems by simp
  qed
qed

lemma foldl_keepLonger_firstLongest:
  "foldl keepLonger (m, sp) rs =
     (max m (longestRun rs), if longestRun rs > m then fst (firstLongest rs) else sp)"
proof (induction rs arbitrary: m sp)
  case Nil
  then show ?case by simp
next
  case (Cons r rs)
  show ?case
  proof (cases "snd r > m")
    case True
    then show ?thesis
      using Cons.IH[of "snd r" "fst r"]
      by (cases r) (auto simp: firstLongest_def max_def)
  next
    case False
    then show ?thesis
      using Cons.IH[of m sp]
      by (cases r) (auto simp: firstLongest_def max_def)
  qed
qed

lemma streakLoop_first_longest:
  "snd (streakLoop p0 ps (1, 1, p0)) =
     (max 1 (longestRun (runsOf (p0 # ps))),
      if longestRun (runsOf (p0 # ps)) > 1 then fst (firstLongest (runsOf (p0 # ps))) else p0)"
proof -
  have "snd (streakLoop p0 ps (1, 1, p0)) = foldl keepLonger (1, p0) (runsOf (p0 # ps))"
    by (simp add: streakLoop_foldl del: foldl_Cons)
  then show ?thesis
    by (simp only: foldl_keepLonger_firstLongest)
qed

text \<open>
  C5, as the code has it. For every sequence of at least three events whose longest
  run of consecutive equal-polarity events has length at least 3, the streak pattern
  carries that length and the polarity of the first (earliest) run of that length;
  its strength is the length divided by the number of events. When two runs of
  different polarity share the maximal length, the earlier one is reported: the scan
  replaces \<open>sPolarity\<close> only on a strictly longer streak.
\<close>

theorem streak_first_longest_run:
  assumes "3 \<le> length events"
    and "3 \<le> longestRun (runsOf (map ev_polarity events))"
  shows "\<exists>pat. analyzePatterns_streak events = Some pat
          \<and> streak_length pat = longestRun (runsOf (map ev_polarity events))
          \<and> streak_polarity pat = fst (firstLongest (runsOf (map ev_polarity events)))
          \<and> strength pat = real (longestRun (runsOf (map ev_polarity events))) / real (length events)"
proof -
  obtain p0 ps where ps: "map ev_polarity events = p0 # ps"
    using assms(1) by (cases "map ev_polarity events") auto
  obtain s m sp where st: "streakLoop p0 ps (1, 1, p0) = (s, m, sp)"
    by (cases "streakLoop p0 ps (1, 1, p0)") auto
  have "(m, sp) = (max 1 (longestRun (runsOf (p0 # ps))),
      if longestRun (runsOf (p0 # ps)) > 1 then fst (firstLongest (runsOf (p0 # ps))) else p0)"
    using streakLoop_first_longest[of p0 ps] st by simp
  then have "m = longestRun (runsOf (p0 # ps))" "sp = fst (firstLongest (runsOf (p0 # ps)))"
    using assms(2) ps by (simp_all del: runsOf.simps)
  then show ?thesis
    using assms ps st by (simp add: analyzePatterns_streak_def del: runsOf.simps)
qed

theorem streak_first_longest_run_witness:
  "3 \<le> length tieEvents \<and> 3 \<le> longestRun (runsOf (map ev_polarity tieEvents))
   \<and> (\<exists>pat. analyzePatterns_streak tieEvents = Some pat
          \<and> streak_length pat = longestRun (runsOf (map ev_polarity tieEvents))
          \<and> streak_polarity pat = fst (firstLongest (runsOf (map ev_polarity tieEvents)))
          \<and> strength pat = real (longestRun (runsOf (map ev_polarity tieEvents))) / real (length tieEvents))"
proof -
  have h: "3 \<le> length tieEvents" "3 \<le> longestRun (runsOf (map ev_polarity tieEvents))"
    by (simp_all add: tieEvents_def mkEvent_def)
  show ?thesis
    using h streak_first_longest_run[OF h] by blast
qed

text \<open>
  Three positive events followed by three negative ones: two runs of length 3, the
  last of them negative, and the reported streak is positive. So the streak does not
  carry the polarity of the latest maximal run.
\<close>

theorem streak_tie_counterexample:
  "runsOf (map ev_polarity tieEvents) = [(Positive, 3), (Negative, 3)]
   \<and> longestRun (runsOf (map ev_polarity tieEvents)) = 3
   \<and> lastLongest (runsOf (map ev_polarity tieEvents)) = (Negative, 3)
   \<and> map_option streak_polarity (analyzePatterns_streak tieEvents) = Some Positive"
  by (simp add: tieEvents_def mkEvent_def lastLongest_def analyzePatterns_streak_def)

lemma geMedian_atOrAbove:
  "map (geMedian (Some m)) (map unat data) = map (atOrAboveMedian m) data"
  by (simp add: geMedian_def atOrAboveMedian_def)

text \<open>
  C6, as the code has it. In \<open>runsTest\<close> on a non-empty sample each byte falls in one
  of two classes, at or above the median against strictly below it (a byte equal to
  the median goes with the class above), and \<open>runs\<close> and \<open>maxRun\<close> are the number and
  the greatest length of the maximal blocks of consecutive bytes of one class.
\<close>

theorem runsTest_counts_blocks:
  assumes "data \<noteq> []"
  shows "\<exists>m. median (map unat data) = Some m
          \<and> runs (runsTest data) = length (runsOf (map (atOrAboveMedian m) data))
          \<and> maxRun (runsTest data) = longestRun (runsOf (map (atOrAboveMedian m) data))"
proof -
  obtain m where m: "median (map unat data) = Some m"
    using assms by (simp add: median_def)
  obtain c cs where cls: "map (atOrAboveMedian m) data = c # cs"
    using assms by (cases data) auto
  have "fst (runsLoop c cs (1, 1, 1)) = length (runsOf (c # cs))"
    by (simp add: runsLoop_runs)
  moreover have "fst (snd (runsLoop c cs (1, 1, 1))) = longestRun (runsOf (c # cs))"
    by (simp add: runsLoop_maxRun)
  ultimately show ?thesis
    using m cls geMedian_atOrAbove[of m data]
    by (simp add: runsTest_def Let_def del: runsOf.simps)
qed

theorem runsTest_counts_blocks_witness:
  "zigzag9 \<noteq> []
   \<and> (\<exists>m. median (map unat zigzag9) = Some m
          \<and> runs (runsTest zigzag9) = length (runsOf (map (atOrAboveMedian m) zigzag9))
          \<and> maxRun (runsTest zigzag9) = longestRun (runsOf (map (atOrAboveMedian m) zigzag9)))"
proof -
  have h: "zigzag9 \<noteq> []"
    by (simp add: zigzag9_def)
  show ?thesis
    using h runsTest_counts_blocks[OF h] by blast
qed

text \<open>
  With the median grouped with the class below, the sample 5, 1, 9, 1, 9, 1, 9, 1, 9
  (median 5) has 8 blocks, the longest of length 2; \<open>runsTest\<close> reports 9 runs and a
  longest run of 1.
\<close>

theorem runsTest_median_class_counterexample:
  "median (map unat zigzag9) = Some 5
   \<and> runs (runsTest zigzag9) = 9
   \<and> length (runsOf (map (aboveMedian 5) zigzag9)) = 8
   \<and> maxRun (runsTest zigzag9) = 1
   \<and> longestRun (runsOf (map (aboveMedian 5) zigzag9)) = 2"
  by (simp add: zigzag9_def median_def runsTest_def geMedian_def aboveMedian_def Let_def)

section \<open>Properties of the lunar phase\<close>











section \<open>Properties of the temporal gate\<close>

lemma fractionalHour_bounds:
  assumes "hours < 24" and "minutes < 60"
  shows "0 \<le> fractionalHour hours minutes \<and> fractionalHour hours minutes < 24"
proof -
  have "real hours \<le> 23" and "real minutes < 60"
    using assms by simp_all
  then show ?thesis
    by (simp add: fractionalHour_def)
qed

lemma gate_partition:
  assumes "0 \<le> h" and "h < 24"
  shows "\<exists>i<length gates. (\<forall>j<length gates. inRange h (gates ! j) \<longleftrightarrow> j = i)
          \<and> find (inRange h) gates = Some (gates ! i)"
proof -
  consider "h < 3" | "3 \<le> h" "h < 5" | "5 \<le> h" "h < 7" | "7 \<le> h" "h < 10"
    | "10 \<le> h" "h < 13" | "13 \<le> h" "h < 16" | "16 \<le> h" "h < 19"
    | "19 \<le> h" "h < 22" | "22 \<le> h"
    by linarith
  then show ?thesis
  proof cases
    case 1
    then show ?thesis using assms
      by (intro exI[of _ 0]) (auto simp: gates_def inRange_def nth_Cons')
  next
    case 2
    then show ?thesis using assms
      by (intro exI[of _ 1]) (auto simp: gates_def inRange_def nth_Cons')
  next
    case 3
    then show ?thesis using assms
      by (intro exI[of _ 2]) (auto simp: gates_def inRange_def nth_Cons')
  next
    case 4
    then show ?thesis using assms
      by (intro exI[of _ 3]) (auto simp: gates_def inRange_def nth_Cons')
  next
    case 5
    then show ?thesis using assms
      by (intro exI[of _ 4]) (auto simp: gates_def inRange_def nth_Cons')
  next
    case 6
    then show ?thesis using assms
      by (intro exI[of _ 5]) (auto simp: gates_def inRange_def nth_Cons')
  next
    case 7
    then show ?thesis using assms
      by (intro exI[of _ 6]) (auto simp: gates_def inRange_def nth_Cons')
  next
    case 8
    then show ?thesis using assms
      by (intro exI[of _ 7]) (auto simp: gates_def inRange_def nth_Cons')
  next
    case 9
    then show ?thesis using assms
      by (intro exI[of _ 8]) (auto simp: gates_def inRange_def nth_Cons')
  qed
qed

text \<open>
  C7. For every hour in 0..23 and minute in 0..59 the fractional hour lies in
  \<open>[0, 24)\<close>, exactly one of the nine ranges contains it, \<open>find\<close> returns that range
  (the fallback to the first gate is not taken), and it is the gate \<open>temporalGate\<close>
  selects.
\<close>

theorem temporalGate_unique_match:
  assumes "hours < 24" and "minutes < 60"
  shows "length gates = 9
    \<and> (\<exists>i<length gates.
          (\<forall>j<length gates. inRange (fractionalHour hours minutes) (gates ! j) \<longleftrightarrow> j = i)
          \<and> find (inRange (fractionalHour hours minutes)) gates = Some (gates ! i)
          \<and> selected (temporalGate hours minutes) = gates ! i)"
proof -
  have "\<exists>i<length gates.
          (\<forall>j<length gates. inRange (fractionalHour hours minutes) (gates ! j) \<longleftrightarrow> j = i)
          \<and> find (inRange (fractionalHour hours minutes)) gates = Some (gates ! i)"
    using fractionalHour_bounds[OF assms] by (intro gate_partition) simp_all
  then obtain i where i: "i < length gates"
      "\<forall>j<length gates. inRange (fractionalHour hours minutes) (gates ! j) \<longleftrightarrow> j = i"
      "find (inRange (fractionalHour hours minutes)) gates = Some (gates ! i)"
    by blast
  have "selected (temporalGate hours minutes) = gates ! i"
    using i(3) by (simp add: temporalGate_def Let_def)
  moreover have "length gates = 9"
    by (simp add: gates_def)
  ultimately show ?thesis
    using i by blast
qed

theorem temporalGate_unique_match_witness:
  "(23::nat) < 24 \<and> (59::nat) < 60 \<and> length gates = 9
    \<and> (\<exists>i<length gates.
          (\<forall>j<length gates. inRange (fractionalHour 23 59) (gates ! j) \<longleftrightarrow> j = i)
          \<and> find (inRange (fractionalHour 23 59)) gates = Some (gates ! i)
          \<and> selected (temporalGate 23 59) = gates ! i)"
proof -
  have h: "(23::nat) < 24" "(59::nat) < 60"
    by simp_all
  show ?thesis
    using h temporalGate_unique_match[OF h] by blast
qed

section \<open>Properties of the decision scorer\<close>

text \<open>
  C10. \<open>evaluateDecision\<close> scores each option with \<open>sc\<close>, a function of that option
  alone. Swapping the two arguments negates \<open>diff\<close> and exchanges the two per-option
  results, so the score and the notes of each option are the same before and after.
\<close>

theorem evaluateDecision_swap:
  "diff (evaluateDecision b a) = - diff (evaluateDecision a b)
   \<and> opt_a (evaluateDecision a b) = sc a
   \<and> opt_b (evaluateDecision a b) = sc b
   \<and> opt_a (evaluateDecision b a) = opt_b (evaluateDecision a b)
   \<and> opt_b (evaluateDecision b a) = opt_a (evaluateDecision a b)"
  by (simp add: evaluateDecision_def Let_def)

end
